theory Spec2Isabelle
  imports Main "HOL-Library.AList"
begin

section \<open>Python values and dictionaries\<close>

text \<open>
  The model starts from the rows that Python's \<open>csv.reader\<close> yields (a list of rows, each a
  list of strings) and ends at the field values handed to \<open>csv.writer.writerow\<close>. The textual
  CSV and JSON syntax is the standard library's business; \<open>csv.DictReader\<close>,
  \<open>csv.DictWriter\<close> and the key conversion of \<open>json.dump\<close> are modelled because the
  converters' behaviour depends on them.

  A value of a row dictionary is a string, \<open>None\<close> (the \<open>restval\<close> of \<open>DictReader\<close> for a
  short row) or a list of strings (stored under the \<open>restkey\<close> \<open>None\<close> for a long row).
  A key is \<open>Some name\<close>, or \<open>None\<close> for the \<open>restkey\<close>.
\<close>

datatype pyval = PStr string | PNone | PList "string list"

datatype error = AttributeError | ValueError

text \<open>
  A Python \<open>dict\<close> keeps insertion order and has one entry per key: an association list
  with distinct keys. \<open>d[k] = v\<close> replaces the value in place when \<open>k\<close> is present and
  appends otherwise, which is \<^const>\<open>AList.update\<close>.
\<close>

type_synonym ('k, 'v) pydict = "('k \<times> 'v) list"

definition dict_get :: "('k, 'v) pydict \<Rightarrow> 'k \<Rightarrow> 'v \<Rightarrow> 'v" where
  \<comment> \<open>\<open>d.get(k, default)\<close>\<close>
  "dict_get d k dflt = (case map_of d k of None \<Rightarrow> dflt | Some v \<Rightarrow> v)"

definition dict_update :: "('k, 'v) pydict \<Rightarrow> ('k, 'v) pydict \<Rightarrow> ('k, 'v) pydict" where
  \<comment> \<open>\<open>d.update(other)\<close>, and \<open>dict(pairs)\<close> when \<open>d\<close> is empty\<close>
  "dict_update d other = fold (\<lambda>(k, v) acc. AList.update k v acc) other d"

definition rekey :: "('k \<Rightarrow> 'j) \<Rightarrow> ('k, 'v) pydict \<Rightarrow> ('j, 'v) pydict" where
  \<comment> \<open>\<open>{f(k): v for k, v in d.items()}\<close>, also the loop \<open>for k, v in d.items(): m[f(k)] = v\<close>\<close>
  "rekey f d = fold (\<lambda>(k, v) acc. AList.update (f k) v acc) d []"

definition dict_keys :: "('k, 'v) pydict \<Rightarrow> 'k list" where
  "dict_keys d = map fst d"

definition dict_values :: "('k, 'v) pydict \<Rightarrow> 'v list" where
  "dict_values d = map snd d"

section \<open>Strings: \<open>str.strip\<close>\<close>

text \<open>
  Characters are the code points below 256; among them Python's \<open>str.isspace\<close> holds of
  9 to 13, 28 to 32, 133 and 160.
\<close>

definition py_isspace :: "char \<Rightarrow> bool" where
  "py_isspace c = (let n = (of_char c :: nat) in
     (9 \<le> n \<and> n \<le> 13) \<or> (28 \<le> n \<and> n \<le> 32) \<or> n = 133 \<or> n = 160)"

definition strip :: "string \<Rightarrow> string" where
  "strip s = rev (dropWhile py_isspace (rev (dropWhile py_isspace s)))"

definition str_nonblank :: "string \<Rightarrow> bool" where
  \<comment> \<open>the truth value of \<open>(field or "").strip()\<close> for a string \<open>field\<close>\<close>
  "str_nonblank s = (strip (if s = [] then [] else s) \<noteq> [])"

fun strip_truthy :: "pyval \<Rightarrow> error + bool" where
  \<comment> \<open>the truth value of \<open>(v or "").strip()\<close>; a non-empty list has no \<open>strip\<close>\<close>
  "strip_truthy (PStr s) = Inr (str_nonblank s)"
| "strip_truthy PNone = Inr (strip [] \<noteq> [])"
| "strip_truthy (PList l) = (if l = [] then Inr (strip [] \<noteq> []) else Inl AttributeError)"

fun any_nonblank :: "pyval list \<Rightarrow> error + bool" where
  \<comment> \<open>\<open>any((v or "").strip() for v in values)\<close>: stops at the first true element\<close>
  "any_nonblank [] = Inr False"
| "any_nonblank (v # vs) =
     (case strip_truthy v of
        Inl e \<Rightarrow> Inl e
      | Inr b \<Rightarrow> if b then Inr True else any_nonblank vs)"

section \<open>The fixed tables\<close>

definition header_mapping :: "(string, string) pydict" where
  "header_mapping =
    [(''Supplier Company'', ''companyName''),
     (''Supplier First Name'', ''firstName''),
     (''Supplier Last Name'', ''lastName''),
     (''Supplier Email'', ''emailAddress''),
     (''Supplier Phone'', ''phone''),
     (''Supplier Street'', ''companyStreet''),
     (''Supplier City'', ''companyCity''),
     (''Supplier State'', ''companyState''),
     (''Supplier Zip Code'', ''companyZipCode''),
     (''Supplier Country'', ''companyCountry''),
     (''Site Name'', ''siteName''),
     (''Site ID'', ''siteID''),
     (''Additional Contact Info'', ''additionalContactInfo'')]"

definition new_json_values :: "(string, string) pydict" where
  "new_json_values =
    [(''zi_c_name'', ''''),
     (''zi_c_company_id'', ''''),
     (''jobTitle'', ''''),
     (''zi_c_company_name'', ''''),
     (''zi_c_phone'', ''''),
     (''zi_c_url'', ''''),
     (''zi_c_linkedin_url'', ''''),
     (''zi_c_naics6'', ''''),
     (''sectorTitle'', ''''),
     (''primaryIndustry'', ''''),
     (''zi_c_employees'', ''''),
     (''zi_c_street'', ''''),
     (''zi_c_city'', ''''),
     (''zi_c_state'', ''''),
     (''zi_c_zip'', ''''),
     (''zi_c_country'', ''''),
     (''zi_c_location_id'', ''''),
     (''needsContact'', ''''),
     (''newContactFound'', ''''),
     (''personId'', ''''),
     (''contactMatchCriteria'', ''''),
     (''enrichmentStatus'', ''Success''),
     (''errorMessage'', '''')]"

definition csv_mapping :: "(string, string) pydict" where
  "csv_mapping =
    [(''companyName'', ''Supplier Company''),
     (''companyStreet'', ''Supplier Street''),
     (''companyCity'', ''Supplier City''),
     (''companyState'', ''Supplier State''),
     (''companyZipCode'', ''Supplier Zip Code''),
     (''companyCountry'', ''Supplier Country''),
     (''firstName'', ''Supplier First Name''),
     (''lastName'', ''Supplier Last Name''),
     (''emailAddress'', ''Supplier Email''),
     (''phone'', ''Supplier Phone''),
     (''siteName'', ''Site Name''),
     (''siteID'', ''Site ID''),
     (''additionalContactInfo'', ''Additional Contact Info''),
     (''zi_c_name'', ''Zoominfo Company Name''),
     (''zi_c_company_id'', ''Zoominfo Company ID''),
     (''zi_c_company_name'', ''Company HQ Name''),
     (''zi_c_phone'', ''Company Phone''),
     (''zi_c_url'', ''Website''),
     (''zi_c_linkedin_url'', ''Company LinkedIn URL''),
     (''jobTitle'', ''Contact Job Title''),
     (''zi_c_naics6'', ''6-digit NAICS Code''),
     (''sectorTitle'', ''Sector Title''),
     (''primaryIndustry'', ''Primary Industry''),
     (''zi_c_employees'', ''Number of Employees''),
     (''zi_c_street'', ''Company Street''),
     (''zi_c_city'', ''Company City''),
     (''zi_c_state'', ''Company State''),
     (''zi_c_zip'', ''Company Zip Code''),
     (''zi_c_country'', ''Company Country''),
     (''zi_c_location_id'', ''Company Location ID''),
     (''needsContact'', ''Needs New Contact''),
     (''newContactFound'', ''New Contact Found''),
     (''personId'', ''Contact Person ID''),
     (''contactMatchCriteria'', ''Contact Match Criteria''),
     (''company_match_criteria'', ''Company Match Criteria''),
     (''enrichmentStatus'', ''Enrichment Status''),
     (''errorMessage'', ''Error Message'')]"

definition translate :: "(string, string) pydict \<Rightarrow> string \<Rightarrow> string" where
  \<comment> \<open>\<open>table.get(key, key)\<close>\<close>
  "translate table key = dict_get table key key"

section \<open>\<open>csv.DictReader\<close>\<close>

definition dictreader_row :: "string list \<Rightarrow> string list \<Rightarrow> (string option, pyval) pydict" where
  \<comment> \<open>\<open>d = dict(zip(fieldnames, row))\<close>, then the surplus cells under \<open>None\<close> or \<open>None\<close>
      under the missing names\<close>
  "dictreader_row fieldnames row =
     (let d = dict_update [] (zip (map Some fieldnames) (map PStr row));
          lf = length fieldnames;
          lr = length row
      in if lf < lr then AList.update None (PList (drop lf row)) d
         else if lf > lr then fold (\<lambda>key acc. AList.update (Some key) PNone acc) (drop lr fieldnames) d
         else d)"

definition DictReader :: "string list list \<Rightarrow> (string option, pyval) pydict list" where
  \<comment> \<open>the first row read is the header, whatever it holds; empty rows after it are skipped\<close>
  "DictReader rows =
     (case rows of
        [] \<Rightarrow> []
      | fieldnames # rest \<Rightarrow> map (dictreader_row fieldnames) (filter (\<lambda>row. row \<noteq> []) rest))"

section \<open>\<open>csv_to_json\<close>\<close>

definition map_headers :: "(string option, pyval) pydict \<Rightarrow> (string option, pyval) pydict" where
  \<comment> \<open>\<open>mapped_row[header_mapping.get(key, key)] = value\<close>; the key \<open>None\<close> is in no table\<close>
  "map_headers row = rekey (map_option (translate header_mapping)) row"

definition default_items :: "(string option, pyval) pydict" where
  "default_items = map (\<lambda>(k, v). (Some k, PStr v)) new_json_values"

definition convert_row :: "(string option, pyval) pydict \<Rightarrow> (string option, pyval) pydict" where
  "convert_row row = dict_update (map_headers row) default_items"

fun csv_to_json_loop ::
  "(string option, pyval) pydict list \<Rightarrow> (string option, pyval) pydict list
     \<Rightarrow> error + (string option, pyval) pydict list" where
  "csv_to_json_loop [] data = Inr data"
| "csv_to_json_loop (row # rows) data =
     (case any_nonblank (dict_values row) of
        Inl e \<Rightarrow> Inl e
      | Inr b \<Rightarrow> if \<not> b then csv_to_json_loop rows data
                 else csv_to_json_loop rows (data @ [convert_row row]))"

definition csv_to_json :: "string list list \<Rightarrow> error + (string option, pyval) pydict list" where
  \<comment> \<open>the list \<open>data\<close> handed to \<open>json.dump\<close>\<close>
  "csv_to_json rows = csv_to_json_loop (DictReader rows) []"

section \<open>The JSON file between the converters\<close>

definition json_key :: "string option \<Rightarrow> string" where
  \<comment> \<open>\<open>json.dump\<close> writes the key \<open>None\<close> as \<open>"null"\<close>\<close>
  "json_key k = (case k of None \<Rightarrow> ''null'' | Some s \<Rightarrow> s)"

definition json_dump_load :: "(string option, pyval) pydict list \<Rightarrow> (string, pyval) pydict list" where
  \<comment> \<open>\<open>json.load\<close> of what \<open>json.dump\<close> wrote: a repeated key keeps its last value\<close>
  "json_dump_load data = map (rekey json_key) data"

section \<open>\<open>json_to_csv\<close>\<close>

definition all_keys :: "(string, 'v) pydict list \<Rightarrow> string set" where
  "all_keys data = fold (\<lambda>entry acc. acc \<union> set (dict_keys entry)) data {}"

definition mapped_keys :: "(string, 'v) pydict list \<Rightarrow> string list" where
  "mapped_keys data = filter (\<lambda>k. k \<in> all_keys data) (dict_keys csv_mapping)"

definition unmapped_step :: "string \<Rightarrow> string set \<times> string list \<Rightarrow> string set \<times> string list" where
  "unmapped_step key st =
     (case st of (seen, unmapped) \<Rightarrow>
        if key \<notin> seen then (insert key seen, unmapped @ [key]) else (seen, unmapped))"

definition unmapped_keys :: "(string, 'v) pydict list \<Rightarrow> string list" where
  "unmapped_keys data =
     snd (fold (\<lambda>entry st. fold unmapped_step (dict_keys entry) st) data
            (set (mapped_keys data), []))"

definition combined_keys :: "(string, 'v) pydict list \<Rightarrow> string list" where
  "combined_keys data = mapped_keys data @ unmapped_keys data"

definition json_headers :: "(string, 'v) pydict list \<Rightarrow> string list" where
  "json_headers data = map (translate csv_mapping) (combined_keys data)"

definition dict_to_list :: "string list \<Rightarrow> (string, pyval) pydict \<Rightarrow> error + pyval list" where
  \<comment> \<open>\<open>DictWriter._dict_to_list\<close> with \<open>extrasaction="raise"\<close> and \<open>restval=""\<close>\<close>
  "dict_to_list fieldnames rowdict =
     (if list_ex (\<lambda>k. k \<notin> set fieldnames) (dict_keys rowdict) then Inl ValueError
      else Inr (map (\<lambda>key. dict_get rowdict key (PStr [])) fieldnames))"

fun write_rows ::
  "string list \<Rightarrow> (string, pyval) pydict list \<Rightarrow> pyval list list \<Rightarrow> error + pyval list list" where
  "write_rows headers [] written = Inr written"
| "write_rows headers (entry # rest) written =
     (case dict_to_list headers (rekey (translate csv_mapping) entry) of
        Inl e \<Rightarrow> Inl e
      | Inr cells \<Rightarrow> write_rows headers rest (written @ [cells]))"

definition json_to_csv :: "(string, pyval) pydict list \<Rightarrow> error + (string list \<times> pyval list list)" where
  \<comment> \<open>the header row and the rows of field values handed to the writer\<close>
  "json_to_csv data =
     (let headers = json_headers data
      in case write_rows headers data [] of
           Inl e \<Rightarrow> Inl e
         | Inr rows \<Rightarrow> Inr (headers, rows))"

section \<open>\<open>count_records\<close>\<close>

definition count_records :: "string list list \<Rightarrow> nat" where
  \<comment> \<open>\<open>next(reader, None)\<close> drops one row if there is one\<close>
  "count_records rows = length (filter (\<lambda>row. list_ex str_nonblank row) (drop 1 rows))"

section \<open>Notions of the specification\<close>

text \<open>
  The specification's column order, in its own words: the field names that are keys of the
  egress table, in the table's declaration order and translated, followed by the
  remaining field names in order of first appearance in the document.
\<close>

fun first_appearance :: "'a list \<Rightarrow> 'a list" where
  "first_appearance [] = []"
| "first_appearance (x # xs) = x # first_appearance (filter (\<lambda>y. y \<noteq> x) xs)"

definition field_union :: "(string, 'v) pydict list \<Rightarrow> string set" where
  "field_union data = (\<Union>entry \<in> set data. set (dict_keys entry))"

definition group_a :: "(string, 'v) pydict list \<Rightarrow> string list" where
  "group_a data = filter (\<lambda>k. k \<in> field_union data) (dict_keys csv_mapping)"

definition group_b :: "(string, 'v) pydict list \<Rightarrow> string list" where
  "group_b data =
     first_appearance
       (filter (\<lambda>k. k \<notin> set (dict_keys csv_mapping)) (concat (map dict_keys data)))"

definition column_order_spec :: "(string, 'v) pydict list \<Rightarrow> string list" where
  "column_order_spec data = map (translate csv_mapping) (group_a data) @ group_b data"

definition emit_row :: "string list \<Rightarrow> (string, pyval) pydict \<Rightarrow> pyval list" where
  \<comment> \<open>the cells written for one record when no field is rejected\<close>
  "emit_row headers entry =
     map (\<lambda>key. dict_get (rekey (translate csv_mapping) entry) key (PStr [])) headers"

text \<open>
  A tabular input is regular when its header names are pairwise distinct and no data row
  has more cells than the header.
\<close>

definition wf_csv :: "string list list \<Rightarrow> bool" where
  "wf_csv rows =
     (case rows of
        [] \<Rightarrow> True
      | fieldnames # rest \<Rightarrow>
          distinct fieldnames \<and> list_all (\<lambda>row. length row \<le> length fieldnames) rest)"

text \<open>
  For row filtering less is needed: a data row may be longer than the header when one of
  its cells under the header's columns is non-empty after trimming.
\<close>

definition readable_csv :: "string list list \<Rightarrow> bool" where
  "readable_csv rows =
     (case rows of
        [] \<Rightarrow> True
      | fieldnames # rest \<Rightarrow>
          distinct fieldnames
          \<and> list_all (\<lambda>row. length row \<le> length fieldnames
                             \<or> list_ex str_nonblank (take (length fieldnames) row)) rest)"

definition row_nonblank :: "string list \<Rightarrow> bool" where
  \<comment> \<open>some cell of the row is non-empty after trimming\<close>
  "row_nonblank row = list_ex str_nonblank row"

definition json_record :: "string list \<Rightarrow> string list \<Rightarrow> (string, pyval) pydict" where
  \<comment> \<open>the record of the JSON file that a data row of a regular input becomes\<close>
  "json_record fieldnames row = rekey json_key (convert_row (dictreader_row fieldnames row))"

section \<open>Dictionaries as association lists\<close>

lemma update_fresh: "k \<notin> fst ` set d \<Longrightarrow> AList.update k v d = d @ [(k, v)]"
  by (induction d) auto

lemma fold_update_keys:
  "fst ` set (fold (\<lambda>(k, v) acc. AList.update (f k) v acc) ps d) = fst ` set d \<union> f ` fst ` set ps"
proof (induction ps arbitrary: d)
  case Nil
  then show ?case by simp
next
  case (Cons p ps)
  obtain k0 v0 where p: "p = (k0, v0)" by (cases p)
  show ?case using Cons.IH [of "AList.update (f k0) v0 d"] p
    by (simp add: dom_update)
qed

lemma fold_update_distinct:
  "distinct (map fst d) \<Longrightarrow> distinct (map fst (fold (\<lambda>(k, v) acc. AList.update (f k) v acc) ps d))"
  by (induction ps arbitrary: d) (auto simp: distinct_update)

lemma fold_update_miss:
  "x \<notin> f ` fst ` set ps \<Longrightarrow>
     map_of (fold (\<lambda>(k, v) acc. AList.update (f k) v acc) ps d) x = map_of d x"
  by (induction ps arbitrary: d) (auto simp: update_conv')

lemma fold_update_hit:
  "(k, v) \<in> set ps \<Longrightarrow> (\<forall>(k', v') \<in> set ps. f k' = f k \<longrightarrow> v' = v) \<Longrightarrow>
     map_of (fold (\<lambda>(k, v) acc. AList.update (f k) v acc) ps d) (f k) = Some v"
proof (induction ps arbitrary: d k)
  case Nil
  then show ?case by simp
next
  case (Cons p ps)
  obtain k0 v0 where p: "p = (k0, v0)" by (cases p)
  show ?case
  proof (cases "f k \<in> f ` fst ` set ps")
    case True
    then obtain k1 v1 where in1: "(k1, v1) \<in> set ps" and eq1: "f k1 = f k" by force
    with Cons.prems(2) have "v1 = v" by auto
    with in1 have in2: "(k1, v) \<in> set ps" by simp
    have "\<forall>(k', v') \<in> set ps. f k' = f k1 \<longrightarrow> v' = v"
      using Cons.prems(2) eq1 by auto
    from Cons.IH [OF in2 this, of "AList.update (f k0) v0 d"] show ?thesis
      using eq1 p by simp
  next
    case False
    then have "(k, v) \<notin> set ps" by force
    with Cons.prems(1) p have kv: "k0 = k" "v0 = v" by auto
    show ?thesis
      using fold_update_miss [OF False, of "AList.update (f k0) v0 d"] p kv
      by (simp add: update_conv')
  qed
qed

lemma fold_update_fresh:
  "distinct (map fst (d @ ps)) \<Longrightarrow> fold (\<lambda>(k, v) acc. AList.update k v acc) ps d = d @ ps"
proof (induction ps arbitrary: d)
  case Nil
  then show ?case by simp
next
  case (Cons p ps)
  obtain k0 v0 where p: "p = (k0, v0)" by (cases p)
  have "k0 \<notin> fst ` set d" using Cons.prems p by auto
  then have u: "AList.update k0 v0 d = d @ [(k0, v0)]" by (rule update_fresh)
  have "distinct (map fst ((d @ [(k0, v0)]) @ ps))" using Cons.prems p by simp
  from Cons.IH [OF this] show ?case using u p by simp
qed

section \<open>The column order of \<open>json_to_csv\<close>\<close>

lemma set_first_appearance: "set (first_appearance xs) = set xs"
  by (induction xs rule: first_appearance.induct) auto

lemma distinct_first_appearance: "distinct (first_appearance xs)"
  by (induction xs rule: first_appearance.induct) (auto simp: set_first_appearance)

lemma fold_unmapped_step:
  "fold unmapped_step ks (seen, um) =
     (seen \<union> set ks, um @ first_appearance (filter (\<lambda>k. k \<notin> seen) ks))"
proof (induction ks arbitrary: seen um)
  case Nil
  then show ?case by simp
next
  case (Cons key ks)
  have f: "filter (\<lambda>y. y \<noteq> key) (filter (\<lambda>k. k \<notin> seen) ks) = filter (\<lambda>k. k \<notin> insert key seen) ks"
    by (induction ks) auto
  show ?case
  proof (cases "key \<in> seen")
    case True
    then show ?thesis using Cons.IH [of seen um] by (auto simp: unmapped_step_def)
  next
    case False
    then show ?thesis using Cons.IH [of "insert key seen" "um @ [key]"] f
      by (simp add: unmapped_step_def)
  qed
qed

lemma all_keys_fold: "fold (\<lambda>entry acc. acc \<union> set (dict_keys entry)) data s = s \<union> field_union data"
  by (induction data arbitrary: s) (auto simp: field_union_def)

lemma all_keys_union: "all_keys data = field_union data"
  by (simp add: all_keys_def all_keys_fold)

lemma field_union_concat: "field_union data = set (concat (map dict_keys data))"
  by (auto simp: field_union_def)

lemma unmapped_keys_char:
  "unmapped_keys data =
     first_appearance (filter (\<lambda>k. k \<notin> set (dict_keys csv_mapping)) (concat (map dict_keys data)))"
proof -
  have flat: "fold (\<lambda>entry st. fold unmapped_step (dict_keys entry) st) data st
                = fold unmapped_step (concat (map dict_keys data)) st" for st
    by (induction data arbitrary: st) auto
  have "filter (\<lambda>k. k \<notin> set (mapped_keys data)) (concat (map dict_keys data))
          = filter (\<lambda>k. k \<notin> set (dict_keys csv_mapping)) (concat (map dict_keys data))"
    by (rule filter_cong) (auto simp: mapped_keys_def all_keys_union field_union_concat)
  then show ?thesis
    by (simp add: unmapped_keys_def flat fold_unmapped_step)
qed

lemma translate_absent: "x \<notin> fst ` set table \<Longrightarrow> translate table x = x"
proof -
  assume "x \<notin> fst ` set table"
  then have "map_of table x = None" by (simp add: map_of_eq_None_iff)
  then show ?thesis by (simp add: translate_def dict_get_def)
qed

lemma json_headers_char: "json_headers data = column_order_spec data"
proof -
  have "map (translate csv_mapping) (group_b data) = map (\<lambda>k. k) (group_b data)"
    by (rule map_cong)
       (auto simp: group_b_def set_first_appearance dict_keys_def intro!: translate_absent)
  then show ?thesis
    by (simp add: json_headers_def combined_keys_def unmapped_keys_char mapped_keys_def
          all_keys_union column_order_spec_def group_a_def group_b_def)
qed

lemma set_json_headers: "set (json_headers data) = translate csv_mapping ` field_union data"
proof -
  have "set (combined_keys data) = field_union data"
    by (auto simp: combined_keys_def unmapped_keys_char mapped_keys_def all_keys_union
          set_first_appearance field_union_concat)
  then show ?thesis by (simp add: json_headers_def)
qed

lemma rekey_keys: "set (dict_keys (rekey f d)) = f ` set (dict_keys d)"
  using fold_update_keys [of f d "[]"] by (simp add: rekey_def dict_keys_def)

lemma dict_to_list_ok:
  "f ` set (dict_keys entry) \<subseteq> set headers \<Longrightarrow>
     dict_to_list headers (rekey f entry) = Inr (map (\<lambda>key. dict_get (rekey f entry) key (PStr [])) headers)"
  by (auto simp: dict_to_list_def list_ex_iff rekey_keys)

lemma write_rows_ok:
  "\<forall>entry \<in> set data. translate csv_mapping ` set (dict_keys entry) \<subseteq> set headers \<Longrightarrow>
     write_rows headers data written = Inr (written @ map (emit_row headers) data)"
proof (induction data arbitrary: written)
  case Nil
  then show ?case by simp
next
  case (Cons entry rest)
  then show ?case by (simp add: dict_to_list_ok emit_row_def)
qed

lemma json_to_csv_result:
  "json_to_csv data = Inr (json_headers data, map (emit_row (json_headers data)) data)"
proof -
  have "\<forall>entry \<in> set data. translate csv_mapping ` set (dict_keys entry) \<subseteq> set (json_headers data)"
    by (auto simp: set_json_headers field_union_def)
  from write_rows_ok [OF this, of "[]"] show ?thesis
    by (simp add: json_to_csv_def Let_def)
qed

text \<open>
  C3. For every input document, \<open>json_to_csv\<close> raises nothing and writes the header row
  of the specification: the keys of \<open>csv_mapping\<close> that occur in the union of all record
  keys, in the declaration order of \<open>csv_mapping\<close> and translated to their tabular names,
  followed by all remaining keys in order of first appearance across the records, each
  untranslated.
\<close>

theorem json_to_csv_column_order:
  "\<exists>rows. json_to_csv data = Inr (column_order_spec data, rows)"
  using json_to_csv_result [of data] by (simp add: json_headers_char)

text \<open>
  C5, as the code has it. Two documents with the same union of field names get the same
  leading block of \<open>csv_mapping\<close> headers and the same set of headers; the whole header
  rows are equal when, in addition, the field names outside \<open>csv_mapping\<close> first appear in
  the same order in both documents (in particular when there are none).
\<close>

theorem header_order_same_union:
  assumes "field_union d1 = field_union d2"
  shows "map (translate csv_mapping) (mapped_keys d1) = map (translate csv_mapping) (mapped_keys d2)
       \<and> set (json_headers d1) = set (json_headers d2)
       \<and> (group_b d1 = group_b d2 \<longrightarrow> json_headers d1 = json_headers d2)"
proof -
  have a: "mapped_keys d1 = mapped_keys d2"
    using assms by (simp add: mapped_keys_def all_keys_union)
  have b: "set (json_headers d1) = set (json_headers d2)"
    using assms by (simp add: set_json_headers)
  have c: "group_b d1 = group_b d2 \<longrightarrow> json_headers d1 = json_headers d2"
    using assms by (simp add: json_headers_char column_order_spec_def group_a_def)
  from a b c show ?thesis by simp
qed

theorem header_order_same_union_witness:
  "field_union [[(''phone'', PStr ''1''), (''companyName'', PStr ''Acme'')]]
     = field_union [[(''companyName'', PStr ''Acme'')], [(''phone'', PStr ''1'')]]
   \<and> json_headers [[(''phone'', PStr ''1''), (''companyName'', PStr ''Acme'')]]
     = json_headers [[(''companyName'', PStr ''Acme'')], [(''phone'', PStr ''1'')]]"
proof -
  have u: "field_union [[(''phone'', PStr ''1''), (''companyName'', PStr ''Acme'')]]
             = field_union [[(''companyName'', PStr ''Acme'')], [(''phone'', PStr ''1'')]]"
    by (auto simp: field_union_def dict_keys_def)
  have b: "group_b [[(''phone'', PStr ''1''), (''companyName'', PStr ''Acme'')]]
             = group_b [[(''companyName'', PStr ''Acme'')], [(''phone'', PStr ''1'')]]"
    by (simp add: group_b_def dict_keys_def csv_mapping_def)
  show ?thesis using header_order_same_union [OF u] u b by blast
qed

text \<open>
  The claim C5 as stated fails: fields that are no keys of \<open>csv_mapping\<close> come in order of
  first appearance, so two one-record documents with the fields \<open>x\<close> and \<open>y\<close> in
  opposite orders get different header rows.
\<close>

theorem header_order_counterexample:
  "field_union [[(''x'', PStr ''1''), (''y'', PStr ''2'')]] = field_union [[(''y'', PStr ''2''), (''x'', PStr ''1'')]]
   \<and> json_to_csv [[(''x'', PStr ''1''), (''y'', PStr ''2'')]] = Inr ([''x'', ''y''], [[PStr ''1'', PStr ''2'']])
   \<and> json_to_csv [[(''y'', PStr ''2''), (''x'', PStr ''1'')]] = Inr ([''y'', ''x''], [[PStr ''2'', PStr ''1'']])"
proof -
  have "field_union [[(''x'', PStr ''1''), (''y'', PStr ''2'')]] = field_union [[(''y'', PStr ''2''), (''x'', PStr ''1'')]]"
    by (auto simp: field_union_def dict_keys_def)
  moreover have "json_to_csv [[(''x'', PStr ''1''), (''y'', PStr ''2'')]] = Inr ([''x'', ''y''], [[PStr ''1'', PStr ''2'']])"
    by code_simp
  moreover have "json_to_csv [[(''y'', PStr ''2''), (''x'', PStr ''1'')]] = Inr ([''y'', ''x''], [[PStr ''2'', PStr ''1'']])"
    by code_simp
  ultimately show ?thesis by blast
qed

section \<open>The lookup tables\<close>

text \<open>
  C6. Translation through a table is the total lookup \<open>table.get(key, key)\<close>: a name that
  is no key of the table (the ingest table, the egress table, or any other) is returned
  unchanged.
\<close>

theorem translate_unmapped:
  "(x \<notin> set (dict_keys header_mapping) \<longrightarrow> translate header_mapping x = x)
   \<and> (x \<notin> set (dict_keys csv_mapping) \<longrightarrow> translate csv_mapping x = x)
   \<and> (x \<notin> set (dict_keys table) \<longrightarrow> translate table x = x)"
  by (simp add: dict_keys_def translate_absent)

theorem translate_unmapped_witness:
  "''Notes'' \<notin> set (dict_keys header_mapping) \<and> translate header_mapping ''Notes'' = ''Notes''
   \<and> ''Notes'' \<notin> set (dict_keys csv_mapping) \<and> translate csv_mapping ''Notes'' = ''Notes''"
proof -
  have a: "''Notes'' \<notin> set (dict_keys header_mapping)" by (simp add: dict_keys_def header_mapping_def)
  have b: "''Notes'' \<notin> set (dict_keys csv_mapping)" by (simp add: dict_keys_def csv_mapping_def)
  show ?thesis using a b translate_unmapped [of "''Notes''" "[]"] by simp
qed

text \<open>
  C8. Every value of the ingest table \<open>header_mapping\<close> is a key of the egress table
  \<open>csv_mapping\<close>.
\<close>

theorem ingest_values_are_egress_keys:
  "set (dict_values header_mapping) \<subseteq> set (dict_keys csv_mapping)"
  by (simp add: dict_values_def dict_keys_def header_mapping_def csv_mapping_def)

text \<open>
  C9, as the code has it. The ingest table \<open>header_mapping\<close> has exactly thirteen entries
  and the egress table \<open>csv_mapping\<close> exactly 37; the keys of each are pairwise distinct,
  and the keys of \<open>csv_mapping\<close> include every value of \<open>header_mapping\<close> and every key
  of \<open>new_json_values\<close>.
\<close>

theorem table_sizes:
  "length header_mapping = 13 \<and> length csv_mapping = 37
   \<and> distinct (dict_keys header_mapping) \<and> distinct (dict_keys csv_mapping)
   \<and> set (dict_values header_mapping) \<union> set (dict_keys new_json_values) \<subseteq> set (dict_keys csv_mapping)"
  by (simp add: dict_values_def dict_keys_def header_mapping_def csv_mapping_def new_json_values_def)

text \<open>
  The claim C9 as stated fails: the ingest table does not have fourteen entries.
\<close>

theorem table_sizes_counterexample:
  "length header_mapping \<noteq> 14"
  by (simp add: header_mapping_def)

section \<open>Header collision\<close>

text \<open>
  C10. A record holding both \<open>companyName\<close> and \<open>Supplier Company\<close> makes the computed
  header row name \<open>Supplier Company\<close> twice, the re-keyed row keeps one entry, and the value
  \<open>A\<close> of \<open>companyName\<close> is in no cell of the written row.
\<close>

theorem header_collision:
  "json_headers [[(''companyName'', PStr ''A''), (''Supplier Company'', PStr ''B'')]]
     = [''Supplier Company'', ''Supplier Company'']
   \<and> rekey (translate csv_mapping) [(''companyName'', PStr ''A''), (''Supplier Company'', PStr ''B'')]
     = [(''Supplier Company'', PStr ''B'')]
   \<and> json_to_csv [[(''companyName'', PStr ''A''), (''Supplier Company'', PStr ''B'')]]
     = Inr ([''Supplier Company'', ''Supplier Company''], [[PStr ''B'', PStr ''B'']])"
  by code_simp

section \<open>Row filtering\<close>

lemma strip_empty: "strip [] = []"
  by (simp add: strip_def)

lemma any_nonblank_padding: "any_nonblank (map (\<lambda>k. PNone) ks) = Inr False"
  by (induction ks) (simp_all add: strip_empty)

lemma any_nonblank_cells:
  "any_nonblank (map PStr cells @ map (\<lambda>k. PNone) ks) = Inr (list_ex str_nonblank cells)"
  by (induction cells) (simp_all add: any_nonblank_padding)

lemma fold_padding:
  "fold (\<lambda>key acc. AList.update (Some key) PNone acc) ks d
     = fold (\<lambda>(k, v) acc. AList.update k v acc) (map (\<lambda>key. (Some key, PNone)) ks) d"
  by (induction ks arbitrary: d) simp_all

lemma dictreader_row_regular:
  assumes "distinct fieldnames" and "length row \<le> length fieldnames"
  shows "dictreader_row fieldnames row =
           zip (map Some fieldnames) (map PStr row)
           @ map (\<lambda>key. (Some key, PNone)) (drop (length row) fieldnames)"
proof -
  let ?z = "zip (map Some fieldnames) (map PStr row)"
  let ?pad = "map (\<lambda>key. (Some key, PNone)) (drop (length row) fieldnames)"
  have keys: "map fst (?z @ ?pad) = map Some fieldnames"
  proof -
    have "map fst ?z = take (length row) (map Some fieldnames)"
      by (simp add: map_fst_zip_take min_def)
    moreover have "map fst ?pad = drop (length row) (map Some fieldnames)"
      by (simp add: drop_map comp_def)
    ultimately show ?thesis by simp
  qed
  have dist: "distinct (map fst (?z @ ?pad))"
    unfolding keys using assms(1) by (simp add: distinct_map)
  then have "distinct (map fst ([] @ ?z))" by simp
  then have z: "dict_update [] ?z = ?z"
    unfolding dict_update_def by (simp only: fold_update_fresh append_Nil)
  have pad: "fold (\<lambda>key acc. AList.update (Some key) PNone acc) (drop (length row) fieldnames) ?z
               = ?z @ ?pad"
    unfolding fold_padding using dist by (rule fold_update_fresh)
  show ?thesis
  proof (cases "length row < length fieldnames")
    case True
    then show ?thesis by (simp add: dictreader_row_def Let_def z pad)
  next
    case False
    with assms(2) have "length row = length fieldnames" by simp
    then show ?thesis by (simp add: dictreader_row_def Let_def z)
  qed
qed

lemma dictreader_row_long:
  assumes "distinct fieldnames" and "length fieldnames < length row"
  shows "dictreader_row fieldnames row =
           zip (map Some fieldnames) (map PStr row)
           @ [(None, PList (drop (length fieldnames) row))]"
proof -
  let ?z = "zip (map Some fieldnames) (map PStr row)"
  have keys: "map fst ?z = map Some fieldnames"
    using assms(2) by (simp add: map_fst_zip_take min_def)
  then have "distinct (map fst ([] @ ?z))" using assms(1) by (simp add: distinct_map)
  then have z: "dict_update [] ?z = ?z"
    unfolding dict_update_def by (simp only: fold_update_fresh append_Nil)
  have "fst ` set ?z = Some ` set fieldnames" using keys by (metis set_map)
  then have "None \<notin> fst ` set ?z" by simp
  then have "AList.update None (PList (drop (length fieldnames) row)) ?z
               = ?z @ [(None, PList (drop (length fieldnames) row))]"
    by (rule update_fresh)
  then show ?thesis using assms(2) by (simp add: dictreader_row_def Let_def z)
qed

lemma any_nonblank_hit:
  "list_ex str_nonblank cells \<Longrightarrow> any_nonblank (map PStr cells @ vs) = Inr True"
  by (induction cells) auto

lemma dictreader_row_values:
  assumes "distinct fieldnames"
    and "length row \<le> length fieldnames \<or> list_ex str_nonblank (take (length fieldnames) row)"
  shows "any_nonblank (dict_values (dictreader_row fieldnames row)) = Inr (row_nonblank row)"
proof (cases "length row \<le> length fieldnames")
  case True
  have "map snd (zip (map Some fieldnames) (map PStr row)) = map PStr row"
    using True by (simp add: map_snd_zip_take min_def)
  then show ?thesis
    using any_nonblank_cells [of row "drop (length row) fieldnames"]
    by (simp add: dictreader_row_regular [OF assms(1) True] dict_values_def comp_def
          row_nonblank_def)
next
  case False
  then have long: "length fieldnames < length row" by simp
  with assms(2) have hit: "list_ex str_nonblank (take (length fieldnames) row)" by simp
  then have "row_nonblank row"
    unfolding row_nonblank_def list_ex_iff by (blast dest: in_set_takeD)
  moreover have "map snd (zip (map Some fieldnames) (map PStr row))
                   = map PStr (take (length fieldnames) row)"
    by (simp add: map_snd_zip_take min_def take_map)
  ultimately show ?thesis
    using any_nonblank_hit [OF hit, of "[PList (drop (length fieldnames) row)]"]
    by (simp add: dictreader_row_long [OF assms(1) long] dict_values_def)
qed

lemma wf_csv_readable: "wf_csv rows \<Longrightarrow> readable_csv rows"
  by (auto simp: wf_csv_def readable_csv_def list_all_iff split: list.splits)

lemma csv_to_json_loop_map:
  "\<forall>row \<in> set rs. any_nonblank (dict_values (g row)) = Inr (Q row) \<Longrightarrow>
     csv_to_json_loop (map g rs) data = Inr (data @ map (\<lambda>row. convert_row (g row)) (filter Q rs))"
  by (induction rs arbitrary: data) simp_all

lemma row_nonblank_Nil: "\<not> row_nonblank []"
  by (simp add: row_nonblank_def)

lemma csv_to_json_regular:
  assumes "readable_csv (fieldnames # rest)"
  shows "csv_to_json (fieldnames # rest)
           = Inr (map (\<lambda>row. convert_row (dictreader_row fieldnames row)) (filter row_nonblank rest))"
proof -
  from assms have d: "distinct fieldnames"
    and l: "\<forall>row \<in> set rest. length row \<le> length fieldnames
              \<or> list_ex str_nonblank (take (length fieldnames) row)"
    by (simp_all add: readable_csv_def list_all_iff)
  have "\<forall>row \<in> set (filter (\<lambda>row. row \<noteq> []) rest).
          any_nonblank (dict_values (dictreader_row fieldnames row)) = Inr (row_nonblank row)"
    using d l by (simp add: dictreader_row_values)
  from csv_to_json_loop_map [OF this, of "[]"]
  have "csv_to_json (fieldnames # rest)
          = Inr (map (\<lambda>row. convert_row (dictreader_row fieldnames row))
                  (filter row_nonblank (filter (\<lambda>row. row \<noteq> []) rest)))"
    by (simp add: csv_to_json_def DictReader_def)
  moreover have "filter row_nonblank (filter (\<lambda>row. row \<noteq> []) rest) = filter row_nonblank rest"
    by (auto simp: row_nonblank_Nil intro: filter_cong)
  ultimately show ?thesis by simp
qed

text \<open>
  C4, as the code has it. When the header names are pairwise distinct and every data row
  longer than the header has a cell under the header's columns that is non-empty after
  trimming, \<open>csv_to_json\<close> raises nothing and emits exactly one record per data row that has
  a cell which is non-empty after trimming, in input row order; the record is the remapped
  row with the defaults merged in, and the test is made on the raw cells. An input without
  any row gives the empty document.
\<close>

theorem blank_rows_dropped:
  "csv_to_json [] = Inr []
   \<and> (readable_csv (fieldnames # rest) \<longrightarrow>
        csv_to_json (fieldnames # rest)
          = Inr (map (\<lambda>row. convert_row (dictreader_row fieldnames row)) (filter row_nonblank rest)))"
  by (simp add: csv_to_json_regular) (simp add: csv_to_json_def DictReader_def)

theorem blank_rows_dropped_witness:
  "readable_csv ([''Supplier Company'', ''Note''] # [[''Acme'', ''x''], [], ['' '', ''''], [''Bolt''], [''Core'', '''', ''y'']])
   \<and> csv_to_json ([''Supplier Company'', ''Note''] # [[''Acme'', ''x''], [], ['' '', ''''], [''Bolt''], [''Core'', '''', ''y'']])
       = Inr [convert_row (dictreader_row [''Supplier Company'', ''Note''] [''Acme'', ''x'']),
              convert_row (dictreader_row [''Supplier Company'', ''Note''] [''Bolt'']),
              convert_row (dictreader_row [''Supplier Company'', ''Note''] [''Core'', '''', ''y''])]"
proof -
  have w: "readable_csv ([''Supplier Company'', ''Note''] # [[''Acme'', ''x''], [], ['' '', ''''], [''Bolt''], [''Core'', '''', ''y'']])"
    by code_simp
  have s: "filter row_nonblank [[''Acme'', ''x''], [], ['' '', ''''], [''Bolt''], [''Core'', '''', ''y'']] = [[''Acme'', ''x''], [''Bolt''], [''Core'', '''', ''y'']]"
    by code_simp
  have "csv_to_json ([''Supplier Company'', ''Note''] # [[''Acme'', ''x''], [], ['' '', ''''], [''Bolt''], [''Core'', '''', ''y'']])
       = Inr (map (\<lambda>row. convert_row (dictreader_row [''Supplier Company'', ''Note''] row))
               (filter row_nonblank [[''Acme'', ''x''], [], ['' '', ''''], [''Bolt''], [''Core'', '''', ''y'']]))"
    using blank_rows_dropped [of "[''Supplier Company'', ''Note'']" "[[''Acme'', ''x''], [], ['' '', ''''], [''Bolt''], [''Core'', '''', ''y'']]"] w
    by blast
  then show ?thesis using w unfolding s by simp
qed

text \<open>
  The claim C4 as stated fails on other inputs. Under the header \<open>a,a\<close>
  the row \<open>x,\<close> has a non-empty cell, but \<open>DictReader\<close> keeps the last cell of a repeated
  name and the row is dropped. Under the header \<open>a\<close> the blank row of two cells raises
  \<open>AttributeError\<close>, because the surplus cells are a list.
\<close>

theorem blank_rows_dropped_counterexample:
  "row_nonblank [''x'', ''''] \<and> csv_to_json [[''a'', ''a''], [''x'', '''']] = Inr []
   \<and> \<not> row_nonblank ['' '', '' ''] \<and> csv_to_json [[''a''], ['' '', '' '']] = Inl AttributeError"
  by code_simp

text \<open>
  C7, as the code has it. When the header names are pairwise distinct and every data row
  longer than the header has a cell under the header's columns that is non-empty after
  trimming, the number that \<open>count_records\<close> reports is the number of records that
  \<open>csv_to_json\<close> emits, and \<open>csv_to_json\<close> raises nothing.
\<close>

theorem count_matches_conversion:
  assumes "readable_csv rows"
  shows "\<exists>data. csv_to_json rows = Inr data \<and> count_records rows = length data"
proof (cases rows)
  case Nil
  then show ?thesis by (simp add: csv_to_json_def DictReader_def count_records_def)
next
  case (Cons fieldnames rest)
  have "filter (\<lambda>row. list_ex str_nonblank row) rest = filter row_nonblank rest"
    by (rule filter_cong) (simp_all add: row_nonblank_def)
  with Cons assms show ?thesis
    by (simp add: csv_to_json_regular count_records_def)
qed

theorem count_matches_conversion_witness:
  "readable_csv ([''Supplier Company'', ''Note''] # [[''Acme'', ''x''], [], ['' '', ''''], [''Bolt''], [''Core'', '''', ''y'']])
   \<and> count_records ([''Supplier Company'', ''Note''] # [[''Acme'', ''x''], [], ['' '', ''''], [''Bolt''], [''Core'', '''', ''y'']]) = 3
   \<and> (\<exists>data. csv_to_json ([''Supplier Company'', ''Note''] # [[''Acme'', ''x''], [], ['' '', ''''], [''Bolt''], [''Core'', '''', ''y'']]) = Inr data
          \<and> length data = 3)"
proof -
  have w: "readable_csv ([''Supplier Company'', ''Note''] # [[''Acme'', ''x''], [], ['' '', ''''], [''Bolt''], [''Core'', '''', ''y'']])"
    by code_simp
  have c: "count_records ([''Supplier Company'', ''Note''] # [[''Acme'', ''x''], [], ['' '', ''''], [''Bolt''], [''Core'', '''', ''y'']]) = 3"
    by code_simp
  show ?thesis using count_matches_conversion [OF w] w c by auto
qed

text \<open>
  The claim C7 as stated fails: \<open>count_records\<close> tests the cells of the raw row and
  \<open>csv_to_json\<close> the values of the row dictionary. Under the header \<open>a,a\<close> the row
  \<open>x,\<close> is counted and not converted; under the header \<open>a\<close> a row whose only non-empty
  cell is a surplus one is counted, and \<open>csv_to_json\<close> raises \<open>AttributeError\<close> on it.
\<close>

theorem count_matches_conversion_counterexample:
  "count_records [[''a'', ''a''], [''x'', '''']] = 1 \<and> csv_to_json [[''a'', ''a''], [''x'', '''']] = Inr []
   \<and> count_records [[''a''], ['' '', ''x'']] = 1 \<and> csv_to_json [[''a''], ['' '', ''x'']] = Inl AttributeError"
  by code_simp

section \<open>Default injection\<close>

lemma csv_to_json_loop_records:
  "csv_to_json_loop rs acc = Inr data \<Longrightarrow> set data \<subseteq> set acc \<union> convert_row ` set rs"
proof (induction rs arbitrary: acc)
  case Nil
  then show ?case by simp
next
  case (Cons row rs)
  show ?case
  proof (cases "any_nonblank (dict_values row)")
    case (Inl e)
    with Cons.prems show ?thesis by simp
  next
    case (Inr b)
    show ?thesis
    proof (cases b)
      case True
      with Inr Cons.prems have "csv_to_json_loop rs (acc @ [convert_row row]) = Inr data" by simp
      from Cons.IH [OF this] show ?thesis by auto
    next
      case False
      with Inr Cons.prems have "csv_to_json_loop rs acc = Inr data" by simp
      from Cons.IH [OF this] show ?thesis by auto
    qed
  qed
qed

lemma distinct_default_keys: "distinct (map fst default_items)"
  by (simp add: default_items_def new_json_values_def)

lemma convert_row_default:
  assumes "(k, v) \<in> set new_json_values"
  shows "map_of (convert_row row) (Some k) = Some (PStr v)"
proof -
  have m: "(Some k, PStr v) \<in> set default_items"
    using assms by (force simp: default_items_def)
  have "\<forall>(k', v') \<in> set default_items. k' = Some k \<longrightarrow> v' = PStr v"
    using m distinct_default_keys by (auto dest: eq_key_imp_eq_value)
  from fold_update_hit [of "Some k" "PStr v" default_items "\<lambda>k. k", OF m this]
  show ?thesis by (simp add: convert_row_def dict_update_def)
qed

lemma convert_row_distinct: "distinct (map fst (convert_row row))"
proof -
  have "distinct (map fst (map_headers row))"
    using fold_update_distinct [of "[]" "map_option (translate header_mapping)" row]
    by (simp add: map_headers_def rekey_def)
  from fold_update_distinct [OF this, of "\<lambda>k. k" default_items]
  show ?thesis by (simp add: convert_row_def dict_update_def)
qed

lemma null_not_default: "''null'' \<notin> fst ` set new_json_values"
  by (simp add: new_json_values_def)

lemma json_record_default:
  assumes "(k, v) \<in> set new_json_values"
  shows "map_of (rekey json_key (convert_row row)) k = Some (PStr v)"
proof -
  let ?r = "convert_row row"
  have m: "(Some k, PStr v) \<in> set ?r"
    using convert_row_default [OF assms] by (rule map_of_SomeD)
  have k: "k \<noteq> ''null''" using assms null_not_default by force
  have "\<forall>(k', v') \<in> set ?r. json_key k' = json_key (Some k) \<longrightarrow> v' = PStr v"
  proof (clarify)
    fix k' v' assume a: "(k', v') \<in> set ?r" "json_key k' = json_key (Some k)"
    from a(2) k have "k' = Some k" by (cases k') (simp_all add: json_key_def)
    with a(1) m convert_row_distinct [of row] show "v' = PStr v"
      by (auto dest: eq_key_imp_eq_value)
  qed
  from fold_update_hit [of "Some k" "PStr v" ?r json_key, OF m this]
  show ?thesis by (simp add: rekey_def json_key_def)
qed

text \<open>
  C2. Every record that \<open>csv_to_json\<close> emits holds every key of \<open>new_json_values\<close> with
  its default value, in memory and in the JSON file, whatever header remapping produced
  under that key; in particular \<open>enrichmentStatus\<close> is \<open>Success\<close>.
\<close>

theorem defaults_overwrite:
  assumes "csv_to_json rows = Inr data" and "i < length data"
  shows "(\<forall>(k, v) \<in> set new_json_values.
            map_of (data ! i) (Some k) = Some (PStr v)
            \<and> map_of (json_dump_load data ! i) k = Some (PStr v))
         \<and> map_of (data ! i) (Some ''enrichmentStatus'') = Some (PStr ''Success'')
         \<and> map_of (json_dump_load data ! i) ''enrichmentStatus'' = Some (PStr ''Success'')"
proof -
  from assms(1) have "set data \<subseteq> convert_row ` set (DictReader rows)"
    using csv_to_json_loop_records [of "DictReader rows" "[]" data] by (simp add: csv_to_json_def)
  with assms(2) obtain row where r: "data ! i = convert_row row"
    using nth_mem by blast
  have j: "json_dump_load data ! i = rekey json_key (convert_row row)"
    using assms(2) r by (simp add: json_dump_load_def)
  have e: "(''enrichmentStatus'', ''Success'') \<in> set new_json_values"
    by (simp add: new_json_values_def)
  show ?thesis
    using r j convert_row_default json_record_default e by auto
qed

theorem defaults_overwrite_witness:
  "csv_to_json [[''Supplier Company'', ''enrichmentStatus''], [''Acme'', ''Failed'']]
     = Inr [convert_row [(Some ''Supplier Company'', PStr ''Acme''), (Some ''enrichmentStatus'', PStr ''Failed'')]]
   \<and> 0 < length [convert_row [(Some ''Supplier Company'', PStr ''Acme''), (Some ''enrichmentStatus'', PStr ''Failed'')]]
   \<and> map_of (convert_row [(Some ''Supplier Company'', PStr ''Acme''), (Some ''enrichmentStatus'', PStr ''Failed'')])
        (Some ''enrichmentStatus'') = Some (PStr ''Success'')"
proof -
  have c: "csv_to_json [[''Supplier Company'', ''enrichmentStatus''], [''Acme'', ''Failed'']]
     = Inr [convert_row [(Some ''Supplier Company'', PStr ''Acme''), (Some ''enrichmentStatus'', PStr ''Failed'')]]"
    by code_simp
  have i: "0 < length [convert_row [(Some ''Supplier Company'', PStr ''Acme''), (Some ''enrichmentStatus'', PStr ''Failed'')]]"
    by simp
  show ?thesis using defaults_overwrite [OF c i] c by simp
qed

section \<open>Round trip\<close>

lemma map_of_inj:
  "distinct (map snd t) \<Longrightarrow> map_of t a = Some x \<Longrightarrow> map_of t b = Some x \<Longrightarrow> a = b"
proof (induction t)
  case Nil
  then show ?case by simp
next
  case (Cons p t)
  obtain k v where p: "p = (k, v)" by (cases p)
  from Cons.prems(1) p have nv: "v \<notin> snd ` set t" and dt: "distinct (map snd t)" by auto
  have other: "map_of t c = Some x \<Longrightarrow> x \<noteq> v" for c
    using nv by (force dest: map_of_SomeD)
  show ?case
  proof (cases "a = k")
    case True
    with Cons.prems(2) p have xv: "x = v" by simp
    show ?thesis
    proof (cases "b = k")
      case True
      with \<open>a = k\<close> show ?thesis by simp
    next
      case False
      with Cons.prems(3) p have "map_of t b = Some x" by simp
      with other xv show ?thesis by blast
    qed
  next
    case False
    with Cons.prems(2) p have ma: "map_of t a = Some x" by simp
    show ?thesis
    proof (cases "b = k")
      case True
      with Cons.prems(3) p have "x = v" by simp
      with other ma show ?thesis by blast
    next
      case False
      with Cons.prems(3) p have "map_of t b = Some x" by simp
      with Cons.IH [OF dt ma] show ?thesis by simp
    qed
  qed
qed

lemma header_mapping_inj: "distinct (map snd header_mapping)"
  by (simp add: header_mapping_def)

lemma csv_mapping_inj: "distinct (map snd csv_mapping)"
  by (simp add: csv_mapping_def)

lemma csv_mapping_inverts:
  "\<forall>(k, v) \<in> set header_mapping. map_of csv_mapping v = Some k"
  by (simp add: header_mapping_def csv_mapping_def)

lemma ingest_keys_not_values:
  "\<forall>k \<in> set (map fst header_mapping). k \<notin> set (map snd header_mapping)"
  by (simp add: header_mapping_def)

lemma ingest_keys_not_defaults:
  "\<forall>k \<in> set (map fst header_mapping). k \<notin> set (map fst new_json_values)"
  by (simp add: header_mapping_def new_json_values_def)

lemma ingest_values_not_defaults:
  "\<forall>k \<in> set (map snd header_mapping). k \<notin> set (map fst new_json_values) \<and> k \<noteq> ''null''"
  by (simp add: header_mapping_def new_json_values_def)

lemma translate_cases:
  "translate t a = b \<Longrightarrow> map_of t a = Some b \<or> (map_of t a = None \<and> a = b)"
  by (auto simp: translate_def dict_get_def split: option.splits)

lemma translate_Some: "map_of t a = Some b \<Longrightarrow> translate t a = b"
  by (simp add: translate_def dict_get_def)

lemma json_record_lookup:
  assumes "map_of (convert_row row) (Some k) = Some v" and "k \<noteq> ''null''"
  shows "map_of (rekey json_key (convert_row row)) k = Some v"
proof -
  let ?r = "convert_row row"
  have m: "(Some k, v) \<in> set ?r" using assms(1) by (rule map_of_SomeD)
  have "\<forall>(k', v') \<in> set ?r. json_key k' = json_key (Some k) \<longrightarrow> v' = v"
  proof (clarify)
    fix k' v' assume a: "(k', v') \<in> set ?r" "json_key k' = json_key (Some k)"
    from a(2) assms(2) have "k' = Some k" by (cases k') (simp_all add: json_key_def)
    with a(1) m convert_row_distinct [of row] show "v' = v"
      by (auto dest: eq_key_imp_eq_value)
  qed
  from fold_update_hit [of "Some k" v ?r json_key, OF m this]
  show ?thesis by (simp add: rekey_def json_key_def)
qed

lemma dictreader_row_keys:
  assumes "distinct fieldnames" and "length row \<le> length fieldnames"
  shows "map fst (dictreader_row fieldnames row) = map Some fieldnames"
proof -
  have "map fst (zip (map Some fieldnames) (map PStr row)) = take (length row) (map Some fieldnames)"
    by (simp add: map_fst_zip_take min_def)
  moreover have "map fst (map (\<lambda>key. (Some key, PNone)) (drop (length row) fieldnames))
                   = drop (length row) (map Some fieldnames)"
    by (simp add: drop_map comp_def)
  ultimately show ?thesis
    by (simp add: dictreader_row_regular [OF assms])
qed

lemma dictreader_row_cell:
  assumes "distinct fieldnames" and "length row \<le> length fieldnames" and "j < length row"
  shows "(Some (fieldnames ! j), PStr (row ! j)) \<in> set (dictreader_row fieldnames row)"
proof -
  have "(Some (fieldnames ! j), PStr (row ! j)) \<in> set (zip (map Some fieldnames) (map PStr row))"
    using assms(2,3) by (auto simp: set_zip intro!: exI [of _ j])
  then show ?thesis by (simp add: dictreader_row_regular [OF assms(1,2)])
qed

text \<open>Step 1: header remapping keeps the cell under the document name.\<close>

lemma map_headers_cell:
  assumes d: "distinct fieldnames" and l: "length row \<le> length fieldnames" and j: "j < length row"
    and m: "map_of header_mapping (fieldnames ! j) = Some name"
    and n: "name \<notin> set fieldnames"
  shows "map_of (map_headers (dictreader_row fieldnames row)) (Some name) = Some (PStr (row ! j))"
proof -
  let ?D = "dictreader_row fieldnames row"
  let ?g = "map_option (translate header_mapping)"
  have cell: "(Some (fieldnames ! j), PStr (row ! j)) \<in> set ?D"
    using d l j by (rule dictreader_row_cell)
  have keys: "map fst ?D = map Some fieldnames" using d l by (rule dictreader_row_keys)
  then have dist: "distinct (map fst ?D)" using d by (simp add: distinct_map)
  have g: "?g (Some (fieldnames ! j)) = Some name" using m by (simp add: translate_Some)
  have "\<forall>(k', v') \<in> set ?D. ?g k' = ?g (Some (fieldnames ! j)) \<longrightarrow> v' = PStr (row ! j)"
  proof (clarify)
    fix k' v' assume a: "(k', v') \<in> set ?D" "?g k' = ?g (Some (fieldnames ! j))"
    from a(1) have "k' \<in> set (map fst ?D)" by force
    then obtain h' where h': "k' = Some h'" "h' \<in> set fieldnames" unfolding keys by auto
    from a(2) g h' have t: "translate header_mapping h' = name" by simp
    have "map_of header_mapping h' = Some name"
      using translate_cases [OF t] h'(2) n by auto
    from map_of_inj [OF header_mapping_inj this m] have "h' = fieldnames ! j" .
    with h' a(1) cell dist show "v' = PStr (row ! j)"
      by (auto dest: eq_key_imp_eq_value)
  qed
  from fold_update_hit [of "Some (fieldnames ! j)" "PStr (row ! j)" ?D ?g, OF cell this, of "[]"] g
  show ?thesis by (simp add: map_headers_def rekey_def)
qed

text \<open>Step 2: default injection does not touch it.\<close>

lemma convert_row_cell:
  assumes d: "distinct fieldnames" and l: "length row \<le> length fieldnames" and j: "j < length row"
    and m: "map_of header_mapping (fieldnames ! j) = Some name"
    and n: "name \<notin> set fieldnames"
  shows "map_of (convert_row (dictreader_row fieldnames row)) (Some name) = Some (PStr (row ! j))"
proof -
  have "name \<in> set (map snd header_mapping)" using map_of_SomeD [OF m] by force
  with ingest_values_not_defaults have "name \<notin> set (map fst new_json_values)" by blast
  then have "Some name \<notin> (\<lambda>k. k) ` fst ` set default_items"
    by (force simp: default_items_def)
  from fold_update_miss [OF this, of "map_headers (dictreader_row fieldnames row)"]
  show ?thesis
    by (simp add: convert_row_def dict_update_def map_headers_cell [OF assms])
qed

lemma json_record_keys:
  assumes "distinct fieldnames" and "length row \<le> length fieldnames"
  shows "set (dict_keys (json_record fieldnames row))
           = translate header_mapping ` set fieldnames \<union> set (dict_keys new_json_values)"
proof -
  let ?D = "dictreader_row fieldnames row"
  have k0: "fst ` set ?D = Some ` set fieldnames"
    using dictreader_row_keys [OF assms] by (metis set_map)
  have k1: "fst ` set (map_headers ?D) = map_option (translate header_mapping) ` fst ` set ?D"
    using fold_update_keys [of "map_option (translate header_mapping)" ?D "[]"]
    by (simp add: map_headers_def rekey_def)
  have k2: "fst ` set (convert_row ?D) = fst ` set (map_headers ?D) \<union> fst ` set default_items"
    using fold_update_keys [of "\<lambda>k. k" default_items "map_headers ?D"]
    by (simp add: convert_row_def dict_update_def)
  have k3: "fst ` set default_items = Some ` fst ` set new_json_values"
    by (force simp: default_items_def)
  have "set (dict_keys (json_record fieldnames row)) = json_key ` fst ` set (convert_row ?D)"
    using rekey_keys [of json_key "convert_row ?D"] by (simp add: json_record_def dict_keys_def)
  also have "\<dots> = translate header_mapping ` set fieldnames \<union> fst ` set new_json_values"
    unfolding k2 k1 k0 k3 by (simp add: image_Un image_image json_key_def)
  finally show ?thesis by (simp add: dict_keys_def)
qed

lemma json_record_distinct: "distinct (map fst (json_record fieldnames row))"
  using fold_update_distinct [of "[]" json_key "convert_row (dictreader_row fieldnames row)"]
  by (simp add: json_record_def rekey_def)

text \<open>Steps 3 and 4: the JSON file and the re-keying of \<open>json_to_csv\<close>.\<close>

lemma rekeyed_cell:
  assumes d: "distinct fieldnames" and l: "length row \<le> length fieldnames" and j: "j < length row"
    and m: "map_of header_mapping (fieldnames ! j) = Some name"
    and n: "name \<notin> set fieldnames"
  shows "map_of (rekey (translate csv_mapping) (json_record fieldnames row)) (fieldnames ! j)
           = Some (PStr (row ! j))"
    and "name \<in> set (dict_keys (json_record fieldnames row))"
    and "translate csv_mapping name = fieldnames ! j"
proof -
  let ?J = "json_record fieldnames row"
  let ?h = "fieldnames ! j"
  have hm: "(?h, name) \<in> set header_mapping" using m by (rule map_of_SomeD)
  then have nv: "name \<in> set (map snd header_mapping)" and hk: "?h \<in> set (map fst header_mapping)"
    by force+
  from nv ingest_values_not_defaults have nn: "name \<noteq> ''null''" by blast
  have jl: "map_of ?J name = Some (PStr (row ! j))"
    unfolding json_record_def
    using convert_row_cell [OF assms] nn by (rule json_record_lookup)
  then have cell: "(name, PStr (row ! j)) \<in> set ?J" by (rule map_of_SomeD)
  then show "name \<in> set (dict_keys ?J)" by (force simp: dict_keys_def)
  have cm: "map_of csv_mapping name = Some ?h" using csv_mapping_inverts hm by blast
  then show tr: "translate csv_mapping name = ?h" by (rule translate_Some)
  have notkey: "?h \<notin> set (dict_keys ?J)"
  proof
    assume "?h \<in> set (dict_keys ?J)"
    then consider h' where "h' \<in> set fieldnames" "translate header_mapping h' = ?h"
      | "?h \<in> set (dict_keys new_json_values)"
      unfolding json_record_keys [OF d l] by auto
    then show False
    proof cases
      case 1
      from translate_cases [OF 1(2)] show False
      proof
        assume "map_of header_mapping h' = Some ?h"
        then have "?h \<in> set (map snd header_mapping)" by (force dest: map_of_SomeD)
        with hk ingest_keys_not_values show False by blast
      next
        assume "map_of header_mapping h' = None \<and> h' = ?h"
        then have "map_of header_mapping ?h = None" by blast
        with m show False by simp
      qed
    next
      case 2
      then have "?h \<in> set (map fst new_json_values)" by (simp add: dict_keys_def)
      with hk ingest_keys_not_defaults show False by blast
    qed
  qed
  have "\<forall>(k', v') \<in> set ?J. translate csv_mapping k' = translate csv_mapping name \<longrightarrow> v' = PStr (row ! j)"
  proof (clarify)
    fix k' v' assume a: "(k', v') \<in> set ?J" "translate csv_mapping k' = translate csv_mapping name"
    from a(1) have kk: "k' \<in> set (dict_keys ?J)" by (force simp: dict_keys_def)
    from a(2) tr have "translate csv_mapping k' = ?h" by simp
    from translate_cases [OF this] kk notkey have "map_of csv_mapping k' = Some ?h" by auto
    from map_of_inj [OF csv_mapping_inj this cm] have "k' = name" .
    with a(1) cell json_record_distinct [of fieldnames row] show "v' = PStr (row ! j)"
      by (auto dest: eq_key_imp_eq_value)
  qed
  from fold_update_hit [of name "PStr (row ! j)" ?J "translate csv_mapping", OF cell this, of "[]"] tr
  show "map_of (rekey (translate csv_mapping) ?J) ?h = Some (PStr (row ! j))"
    by (simp add: rekey_def)
qed


text \<open>
  C1, as the code has it. For a regular input, let row \<open>i\<close> of the surviving data rows
  supply cell \<open>j\<close> under a column name that is a key of \<open>header_mapping\<close>, with document
  name \<open>name\<close>, and let no column of the input be called \<open>name\<close>. Then both
  conversions succeed, the output has one row per surviving row, the column name is among
  the output headers, and row \<open>i\<close> of the output holds the cell unchanged wherever the
  header is that column name. (No document name of \<open>header_mapping\<close> is a key of
  \<open>new_json_values\<close>, so the proviso of the claim is always met.)
\<close>

theorem known_fields_round_trip:
  assumes wf: "wf_csv (fieldnames # rest)"
    and i: "i < length (filter row_nonblank rest)"
    and j: "j < length (filter row_nonblank rest ! i)"
    and m: "map_of header_mapping (fieldnames ! j) = Some name"
    and n: "name \<notin> set fieldnames"
  shows "\<exists>data headers out.
           csv_to_json (fieldnames # rest) = Inr data
           \<and> json_to_csv (json_dump_load data) = Inr (headers, out)
           \<and> length out = length (filter row_nonblank rest)
           \<and> fieldnames ! j \<in> set headers
           \<and> (\<forall>p < length headers. headers ! p = fieldnames ! j \<longrightarrow>
                 out ! i ! p = PStr (filter row_nonblank rest ! i ! j))"
proof -
  let ?surv = "filter row_nonblank rest"
  let ?row = "?surv ! i"
  let ?data = "map (\<lambda>row. convert_row (dictreader_row fieldnames row)) ?surv"
  let ?doc = "json_dump_load ?data"
  let ?hs = "json_headers ?doc"
  let ?out = "map (emit_row ?hs) ?doc"
  from wf have d: "distinct fieldnames"
    and "\<forall>row \<in> set rest. length row \<le> length fieldnames"
    by (simp_all add: wf_csv_def list_all_iff)
  moreover have "?row \<in> set rest" using i nth_mem [of i ?surv] by auto
  ultimately have l: "length ?row \<le> length fieldnames" by blast
  note cell = rekeyed_cell [OF d l j m n]
  have doc: "?doc ! i = json_record fieldnames ?row"
    using i by (simp add: json_dump_load_def json_record_def)
  have c1: "csv_to_json (fieldnames # rest) = Inr ?data"
    using wf_csv_readable [OF wf] by (rule csv_to_json_regular)
  have c2: "json_to_csv ?doc = Inr (?hs, ?out)" by (rule json_to_csv_result)
  have c3: "length ?out = length ?surv" by (simp add: json_dump_load_def)
  have "json_record fieldnames ?row \<in> set ?doc"
    using i doc nth_mem [of i ?doc] by (simp add: json_dump_load_def)
  with cell(2) have "name \<in> field_union ?doc" unfolding field_union_def by blast
  then have c4: "fieldnames ! j \<in> set ?hs"
    unfolding set_json_headers using cell(3) by force
  have c5: "\<forall>p < length ?hs. ?hs ! p = fieldnames ! j \<longrightarrow> ?out ! i ! p = PStr (?row ! j)"
  proof (intro allI impI)
    fix p assume p: "p < length ?hs" "?hs ! p = fieldnames ! j"
    have "?out ! i = emit_row ?hs (json_record fieldnames ?row)"
      using i doc by (simp add: json_dump_load_def)
    then show "?out ! i ! p = PStr (?row ! j)"
      using p cell(1) by (simp add: emit_row_def dict_get_def)
  qed
  from c1 c2 c3 c4 c5 show ?thesis by blast
qed

theorem known_fields_round_trip_witness:
  "wf_csv ([''Supplier Company'', ''Supplier Email''] # [[''Acme'', ''a@x.com'']])
   \<and> 0 < length (filter row_nonblank [[''Acme'', ''a@x.com'']])
   \<and> 1 < length (filter row_nonblank [[''Acme'', ''a@x.com'']] ! 0)
   \<and> map_of header_mapping ([''Supplier Company'', ''Supplier Email''] ! 1) = Some ''emailAddress''
   \<and> ''emailAddress'' \<notin> set [''Supplier Company'', ''Supplier Email'']
   \<and> (\<exists>data headers out.
         csv_to_json ([''Supplier Company'', ''Supplier Email''] # [[''Acme'', ''a@x.com'']]) = Inr data
         \<and> json_to_csv (json_dump_load data) = Inr (headers, out)
         \<and> length out = 1
         \<and> ''Supplier Email'' \<in> set headers
         \<and> (\<forall>p < length headers. headers ! p = ''Supplier Email'' \<longrightarrow> out ! 0 ! p = PStr ''a@x.com''))"
proof -
  have s: "filter row_nonblank [[''Acme'', ''a@x.com'']] = [[''Acme'', ''a@x.com'']]"
    by code_simp
  have w: "wf_csv ([''Supplier Company'', ''Supplier Email''] # [[''Acme'', ''a@x.com'']])"
    by (simp add: wf_csv_def)
  have i: "0 < length (filter row_nonblank [[''Acme'', ''a@x.com'']])"
    unfolding s by simp
  have j: "1 < length (filter row_nonblank [[''Acme'', ''a@x.com'']] ! 0)"
    unfolding s by simp
  have m: "map_of header_mapping ([''Supplier Company'', ''Supplier Email''] ! 1) = Some ''emailAddress''"
    by (simp add: header_mapping_def)
  have n: "''emailAddress'' \<notin> set [''Supplier Company'', ''Supplier Email'']"
    by simp
  have e: "\<exists>data headers out.
         csv_to_json ([''Supplier Company'', ''Supplier Email''] # [[''Acme'', ''a@x.com'']]) = Inr data
         \<and> json_to_csv (json_dump_load data) = Inr (headers, out)
         \<and> length out = 1
         \<and> ''Supplier Email'' \<in> set headers
         \<and> (\<forall>p < length headers. headers ! p = ''Supplier Email'' \<longrightarrow> out ! 0 ! p = PStr ''a@x.com'')"
    using known_fields_round_trip [OF w i j m n] unfolding s by simp
  from w i j m n e show ?thesis by blast
qed

text \<open>
  The claim C1 as stated fails when the input also has a column called by the document
  name: with the columns \<open>Supplier Company\<close> and \<open>companyName\<close> both cells are stored under
  \<open>companyName\<close>, the later one wins, and \<open>A\<close> is in no cell of the output.
\<close>

theorem known_fields_round_trip_counterexample:
  "wf_csv [[''Supplier Company'', ''companyName''], [''A'', ''B'']]
   \<and> csv_to_json [[''Supplier Company'', ''companyName''], [''A'', ''B'']]
       = Inr [(Some ''companyName'', PStr ''B'') # default_items]
   \<and> json_to_csv (json_dump_load [(Some ''companyName'', PStr ''B'') # default_items])
       = Inr ([''Supplier Company'', ''Zoominfo Company Name'', ''Zoominfo Company ID'',
               ''Company HQ Name'', ''Company Phone'', ''Website'', ''Company LinkedIn URL'',
               ''Contact Job Title'', ''6-digit NAICS Code'', ''Sector Title'', ''Primary Industry'',
               ''Number of Employees'', ''Company Street'', ''Company City'', ''Company State'',
               ''Company Zip Code'', ''Company Country'', ''Company Location ID'',
               ''Needs New Contact'', ''New Contact Found'', ''Contact Person ID'',
               ''Contact Match Criteria'', ''Enrichment Status'', ''Error Message''],
              [[PStr ''B'', PStr [], PStr [], PStr [], PStr [], PStr [], PStr [], PStr [],
                PStr [], PStr [], PStr [], PStr [], PStr [], PStr [], PStr [], PStr [],
                PStr [], PStr [], PStr [], PStr [], PStr [], PStr [], PStr ''Success'',
                PStr []]])"
  by code_simp

end
